theory Spec2Isabelle
  imports Complex_Main "HOL-Library.Word"
begin

unbundle bit_operations_syntax

section \<open>The oscilloscope driver \<open>osc\<close> (jupyter/redpitaya/drv/osc.py)\<close>

text \<open>
  The driver is a Python class over two memory-mapped regions: a register block, read
  and written through a NumPy record, and a table of signed 16-bit samples.  A method is
  modelled as a function on the state of the object; a property setter returns the new
  state, together with an outcome when the setter has a path that raises.  A setter that
  raises after a register write returns the state with that write in it.

  The trigger level is the one place where an integer is computed from a float: there
  every floating-point operation is rounded to binary64, as the hardware does it.
  Elsewhere Python floats are modelled as exact reals, and the rounding of the
  floating-point operations is not part of the model.  A \<open>uint32\<close> register combined
  with a Python integer is an integer that cannot overflow at the sizes that occur (NumPy
  promotes to 64 bits), and is modelled as \<open>int\<close>.
\<close>

subsection \<open>Class constants\<close>

definition FS :: real where
  "FS = 125000000"

definition DW :: nat where
  "DW = 16"

definition DWr :: int where
  "DWr = push_bit (DW - 1) 1 - 1"

definition N :: nat where
  "N = 2 ^ 14"

text \<open>The dictionary \<open>edges\<close>, in the order of the source.\<close>

definition edges :: "(string \<times> nat) list" where
  "edges = [(''positive'', 0), (''negative'', 1),
            (''pos'', 0), (''neg'', 1),
            (''p'', 0), (''n'', 1),
            (''+'', 0), (''-'', 1)]"

definition ranges :: "real list" where
  "ranges = [1, 20]"

definition filters :: "(real \<times> (int \<times> int \<times> int \<times> int)) list" where
  "filters = [(1, (0x7D93, 0x437C7, 0xd9999a, 0x2666)),
              (20, (0x4C5F, 0x2F38B, 0xd9999a, 0x2666))]"

subsection \<open>The register block and the object\<close>

text \<open>
  \<open>regset_dtype\<close>: 24 words of 32 bits.  The fields declared \<open>int32\<close> (\<open>cfg_neg\<close>,
  \<open>cfg_pos\<close> and the four filter coefficients) are read with \<open>sint\<close>, the others with
  \<open>uint\<close>.
\<close>

record regset_dtype =
  ctl_sts :: "32 word"
  rsv_001 :: "32 word"
  irq_ena :: "32 word"
  irq_sts :: "32 word"
  cfg_rst :: "32 word"
  cfg_str :: "32 word"
  cfg_stp :: "32 word"
  cfg_trg :: "32 word"
  cfg_pre :: "32 word"
  cfg_pst :: "32 word"
  sts_pre :: "32 word"
  sts_pst :: "32 word"
  cfg_neg :: "32 word"
  cfg_pos :: "32 word"
  cfg_edg :: "32 word"
  cfg_hld :: "32 word"
  cfg_dec :: "32 word"
  cfg_shr :: "32 word"
  cfg_avg :: "32 word"
  cfg_byp :: "32 word"
  cfg_faa :: "32 word"
  cfg_fbb :: "32 word"
  cfg_fkk :: "32 word"
  cfg_fpp :: "32 word"

text \<open>
  The object: the private attribute \<open>__input_range\<close> (absent until the setter has
  stored it, hence an option), the mapped register block and the mapped sample table.
\<close>

record osc =
  input_range :: "real option"
  regset :: regset_dtype
  table :: "16 word list"

datatype py_error =
  ValueError | IndexError | KeyError | NameError | AttributeError | ZeroDivisionError

datatype outcome = Done | Raised py_error

text \<open>A register block with every word zero, and an object over it, for the examples.\<close>

definition regset_zero :: regset_dtype where
  "regset_zero =
     \<lparr>ctl_sts = 0, rsv_001 = 0, irq_ena = 0, irq_sts = 0,
      cfg_rst = 0, cfg_str = 0, cfg_stp = 0, cfg_trg = 0,
      cfg_pre = 0, cfg_pst = 0, sts_pre = 0, sts_pst = 0,
      cfg_neg = 0, cfg_pos = 0, cfg_edg = 0, cfg_hld = 0,
      cfg_dec = 0, cfg_shr = 0, cfg_avg = 0, cfg_byp = 0,
      cfg_faa = 0, cfg_fbb = 0, cfg_fkk = 0, cfg_fpp = 0\<rparr>"

definition osc_zero :: "real \<Rightarrow> osc" where
  "osc_zero r = \<lparr>input_range = Some r, regset = regset_zero, table = replicate N 0\<rparr>"

text \<open>
  A sample table of \<open>N\<close> slots, zero except for the slots 4 to 7, and an object over it
  with the input range 1.0.
\<close>

definition table_example :: "16 word list" where
  "table_example = (replicate N 0)[4 := 100, 5 := - 200, 6 := 300, 7 := - 400]"

definition osc_example :: osc where
  "osc_example = \<lparr>input_range = Some 1, regset = regset_zero, table = table_example\<rparr>"

subsection \<open>Conversions done by NumPy on a store\<close>

text \<open>
  Storing a Python float into an \<open>int32\<close> field converts it as a C cast does: the
  fraction is dropped, towards zero.  The values stored by the driver are at most
  \<open>DWr\<close> in magnitude, where the conversion is exact; \<open>word_of_int\<close> stands for the
  conversion beyond the 32-bit range, which no setter reaches from a valid input range.
\<close>

definition trunc :: "real \<Rightarrow> int" where
  "trunc x = (if x < 0 then \<lceil>x\<rceil> else \<lfloor>x\<rfloor>)"

definition int32_of_float :: "real \<Rightarrow> 32 word" where
  "int32_of_float x = word_of_int (trunc x)"

subsection \<open>Binary64 rounding\<close>

text \<open>
  A Python float is an IEEE 754 binary64 number, and \<open>*\<close> and \<open>/\<close> on floats return the
  exact result rounded to the nearest binary64 number, ties to the even significand.
  \<open>float64\<close> is that rounding, on a real: the exponent of the argument is found by
  searching downwards from 1023 (\<open>- 1023\<close> stands for the subnormal range), the unit in
  the last place is 52 binary places below it and never below \<open>2 ^ - 1074\<close>, and the
  argument is rounded to a multiple of that unit.  Overflow to infinity (a magnitude of
  \<open>2 ^ 1024\<close> or more) is not modelled; the driver's products are below \<open>2 ^ 15\<close>.
\<close>

definition pow2 :: "int \<Rightarrow> real" where
  "pow2 k = (if 0 \<le> k then 2 ^ nat k else 1 / 2 ^ nat (- k))"

fun ilogb_from :: "nat \<Rightarrow> int \<Rightarrow> real \<Rightarrow> int" where
  "ilogb_from 0 k a = k"
| "ilogb_from (Suc n) k a = (if pow2 k \<le> a then k else ilogb_from n (k - 1) a)"

definition float64_exponent :: "real \<Rightarrow> int" where
  "float64_exponent x = ilogb_from 2046 1023 \<bar>x\<bar>"

definition round_half_even :: "real \<Rightarrow> int" where
  "round_half_even y =
     (let f = \<lfloor>y\<rfloor>; d = y - real_of_int f
      in if d < 1 / 2 then f
         else if 1 / 2 < d then f + 1
         else if even f then f else f + 1)"

definition float64 :: "real \<Rightarrow> real" where
  "float64 x =
     (let u = pow2 (max (float64_exponent x - 52) (- 1074))
      in real_of_int (round_half_even (x / u)) * u)"

subsection \<open>Input range and filter coefficients\<close>

text \<open>\<open>filter_coeficients\<close>, getter and setter: four stores, in the order of the tuple.\<close>

definition filter_coeficients :: "osc \<Rightarrow> int \<times> int \<times> int \<times> int" where
  "filter_coeficients s =
     (sint (cfg_faa (regset s)), sint (cfg_fbb (regset s)),
      sint (cfg_fkk (regset s)), sint (cfg_fpp (regset s)))"

definition filter_coeficients_set :: "int \<times> int \<times> int \<times> int \<Rightarrow> osc \<Rightarrow> osc" where
  "filter_coeficients_set v s =
     (case v of (aa, bb, kk, pp) \<Rightarrow>
        let s1 = s\<lparr>regset := (regset s)\<lparr>cfg_faa := word_of_int aa\<rparr>\<rparr>;
            s2 = s1\<lparr>regset := (regset s1)\<lparr>cfg_fbb := word_of_int bb\<rparr>\<rparr>;
            s3 = s2\<lparr>regset := (regset s2)\<lparr>cfg_fkk := word_of_int kk\<rparr>\<rparr>
        in s3\<lparr>regset := (regset s3)\<lparr>cfg_fpp := word_of_int pp\<rparr>\<rparr>)"

text \<open>
  The setter of \<open>input_range\<close>: the membership test, the store of the private
  attribute, the lookup in \<open>filters\<close> (a miss would be a \<open>KeyError\<close>; the membership test
  excludes it) and the store of the coefficients through their setter.
\<close>

definition input_range_set :: "real \<Rightarrow> osc \<Rightarrow> outcome \<times> osc" where
  "input_range_set v s =
     (if v \<in> set ranges then
        (case map_of filters v of
           Some c \<Rightarrow> (Done, filter_coeficients_set c (s\<lparr>input_range := Some v\<rparr>))
         | None \<Rightarrow> (Raised KeyError, s\<lparr>input_range := Some v\<rparr>))
      else (Raised ValueError, s))"

text \<open>
  The constructor, after the device has been opened, locked and mapped (which is not
  modelled): it binds the two mapped regions and stores the input range through the
  setter.  The state returned with \<open>Raised\<close> shows the registers at the time of the raise.
\<close>

definition osc_init :: "regset_dtype \<Rightarrow> 16 word list \<Rightarrow> real \<Rightarrow> outcome \<times> osc" where
  "osc_init regs tbl v =
     input_range_set v \<lparr>input_range = None, regset = regs, table = tbl\<rparr>"

subsection \<open>Trigger level and edge\<close>

text \<open>
  The getter of \<open>level\<close>: both registers are signed and are scaled by
  \<open>__input_range / DWr\<close>.  The quotient and the two products are float operations.
\<close>

definition level :: "osc \<Rightarrow> py_error + real list" where
  "level s =
     (case input_range s of
        None \<Rightarrow> Inl AttributeError
      | Some r \<Rightarrow>
          let scale = float64 (r / real_of_int DWr)
          in Inr [float64 (real_of_int (sint (cfg_neg (regset s))) * scale),
                  float64 (real_of_int (sint (cfg_pos (regset s))) * scale)])"

text \<open>
  The setter of \<open>level\<close>.  The negative level is checked and stored before the positive
  level is looked at.  Both \<open>raise\<close> statements build their message with
  \<open>"... [{},{}]".format(self.__input_range)\<close>: two replacement fields and one argument,
  so \<open>str.format\<close> raises \<open>IndexError\<close> and the \<open>ValueError\<close> is never constructed.
  The scale \<open>DWr / __input_range\<close> and the products \<open>value[i] * scale\<close> are float
  operations; the register receives the rounded product with its fraction dropped.
\<close>

definition level_set :: "real \<times> real \<Rightarrow> osc \<Rightarrow> outcome \<times> osc" where
  "level_set v s =
     (case input_range s of
        None \<Rightarrow> (Raised AttributeError, s)
      | Some r \<Rightarrow>
          if r = 0 then (Raised ZeroDivisionError, s)
          else
            let scale = float64 (real_of_int DWr / r)
            in if - 1 \<le> fst v \<and> fst v \<le> 1 then
                 let s1 = s\<lparr>regset := (regset s)
                            \<lparr>cfg_neg := int32_of_float (float64 (fst v * scale))\<rparr>\<rparr>
                 in if - 1 \<le> snd v \<and> snd v \<le> 1 then
                      (Done, s1\<lparr>regset := (regset s1)
                               \<lparr>cfg_pos := int32_of_float (float64 (snd v * scale))\<rparr>\<rparr>)
                    else (Raised IndexError, s1)
               else (Raised IndexError, s))"

definition edge_set :: "string \<Rightarrow> osc \<Rightarrow> outcome \<times> osc" where
  "edge_set v s =
     (case map_of edges v of
        Some c \<Rightarrow> (Done, s\<lparr>regset := (regset s)\<lparr>cfg_edg := of_nat c\<rparr>\<rparr>)
      | None \<Rightarrow> (Raised ValueError, s))"

subsection \<open>Decimation, sample rate, averaging, bypass\<close>

text \<open>
  \<open>decimation\<close>: the register holds the factor minus one.  The getter adds a Python
  integer to a \<open>uint32\<close>, which gives a wider integer.  The setter stores a Python
  integer with no range check: \<open>word_of_int\<close> is exact for a value in the range of
  \<open>uint32\<close>, and stands for NumPy's conversion outside it.
\<close>

definition decimation :: "osc \<Rightarrow> int" where
  "decimation s = uint (cfg_dec (regset s)) + 1"

definition decimation_set :: "int \<Rightarrow> osc \<Rightarrow> osc" where
  "decimation_set v s = s\<lparr>regset := (regset s)\<lparr>cfg_dec := word_of_int (v - 1)\<rparr>\<rparr>"

definition sample_rate :: "osc \<Rightarrow> real" where
  "sample_rate s = FS / real_of_int (decimation s)"

definition sample_period :: "osc \<Rightarrow> real" where
  "sample_period s = 1 / sample_rate s"

text \<open>
  The setter of \<open>average\<close> stores \<open>int(value)\<close> in \<open>cfg_avg\<close> and then evaluates
  \<open>math.ceil(math.log2(self.decimation))\<close>.  The module imports \<open>os\<close>, \<open>fcntl\<close>, \<open>mmap\<close>
  and \<open>numpy\<close> only: the name \<open>math\<close> is unbound, its lookup raises \<open>NameError\<close>, and
  the store to \<open>cfg_shr\<close> is not reached.
\<close>

definition average :: "osc \<Rightarrow> bool" where
  "average s = (cfg_avg (regset s) \<noteq> 0)"

definition average_set :: "bool \<Rightarrow> osc \<Rightarrow> outcome \<times> osc" where
  "average_set v s =
     (let s1 = s\<lparr>regset := (regset s)\<lparr>cfg_avg := of_bool v\<rparr>\<rparr>
      in (Raised NameError, s1))"

text \<open>
  The setter of \<open>filter_bypass\<close>: a true value stores 1 in \<open>cfg_byp\<close>; a false value
  assigns to \<open>self.regset.cfg_mod\<close>, which is not a field of \<open>regset_dtype\<close>, and a NumPy
  record refuses the assignment with \<open>AttributeError\<close>.
\<close>

definition filter_bypass :: "osc \<Rightarrow> bool" where
  "filter_bypass s = (cfg_byp (regset s) \<noteq> 0)"

definition filter_bypass_set :: "bool \<Rightarrow> osc \<Rightarrow> outcome \<times> osc" where
  "filter_bypass_set v s =
     (if v then (Done, s\<lparr>regset := (regset s)\<lparr>cfg_byp := 1\<rparr>\<rparr>)
      else (Raised AttributeError, s))"

subsection \<open>Write pointer and sample extraction\<close>

definition pointer :: "osc \<Rightarrow> int" where
  "pointer s =
     (let cnt = uint (sts_pre (regset s) AND 0x7fffffff)
              + uint (sts_pst (regset s) AND 0x7fffffff);
          adr = cnt mod int N
      in adr)"

text \<open>
  \<open>numpy.roll\<close> on a one-dimensional array: the shift is reduced modulo the length, and
  a non-zero offset moves the last \<open>offset\<close> elements to the front.
\<close>

definition roll :: "'a list \<Rightarrow> int \<Rightarrow> 'a list" where
  "roll a shift =
     (let n = length a;
          offset = nat (shift mod int (if n = 0 then 1 else n))
      in if offset = 0 then a
         else drop (n - offset) a @ take (n - offset) a)"

text \<open>
  The slice \<open>a[start:]\<close> of Python and NumPy: a negative start counts from the end, and
  a start beyond either end is clamped to it.
\<close>

definition slice_from :: "'a list \<Rightarrow> int \<Rightarrow> 'a list" where
  "slice_from a start =
     (let n = int (length a);
          st = (if start < 0 then max 0 (n + start) else min start n)
      in drop (nat st) a)"

text \<open>
  \<open>data\<close>: \<open>ptr\<close> is \<open>None\<close> or an integer.  The source also computes
  \<open>adr = (N + ptr - siz) % N\<close> and never uses it.  The samples are converted to
  \<open>float32\<close> (exact for 16-bit integers) and scaled by \<open>__input_range / DWr\<close>.
\<close>

definition data :: "osc \<Rightarrow> int \<Rightarrow> int option \<Rightarrow> py_error + real list" where
  "data s siz ptr_opt =
     (let ptr = (case ptr_opt of None \<Rightarrow> pointer s | Some p \<Rightarrow> p);
          adr = (int N + ptr - siz) mod int N;
          tbl = roll (table s) (- ptr)
      in case input_range s of
           None \<Rightarrow> Inl AttributeError
         | Some r \<Rightarrow>
             Inr (map (\<lambda>x. real_of_int (sint x) * (r / real_of_int DWr))
                      (slice_from tbl (- siz))))"

section \<open>Properties\<close>

subsection \<open>Helper facts\<close>

lemma DWr_eq: "DWr = 32767"
  by (simp add: DWr_def DW_def)

lemma mask31: "(0x7fffffff :: 32 word) = mask 31"
  by (simp add: mask_eq_exp_minus_1)

lemma uint_and_7f: "uint ((w :: 32 word) AND 0x7fffffff) = uint w mod 2 ^ 31"
  unfolding mask31 by (simp add: and_mask_mod_2p uint_word_of_int)

subsection \<open>The write pointer\<close>

text \<open>
  Claim C2.  The pointer is the sum of the two status counters, each with its top bit
  masked out, modulo 16384.  Masking with \<open>0x7fffffff\<close> is the counter modulo \<open>2 ^ 31\<close>,
  the sum stays below \<open>2 ^ 32\<close> (so 32-bit unsigned arithmetic would give the same), and
  \<open>sts_pre = 0x80000005\<close>, \<open>sts_pst = 3\<close> give the pointer 8.
\<close>

theorem pointer_masks_overflow_bit:
  "pointer s = (uint (sts_pre (regset s) AND 0x7fffffff)
               + uint (sts_pst (regset s) AND 0x7fffffff)) mod 16384
   \<and> pointer s = (uint (sts_pre (regset s)) mod 2 ^ 31
                 + uint (sts_pst (regset s)) mod 2 ^ 31) mod 16384
   \<and> uint (sts_pre (regset s) AND 0x7fffffff)
       + uint (sts_pst (regset s) AND 0x7fffffff) < 2 ^ 32
   \<and> pointer (s\<lparr>regset := (regset s)\<lparr>sts_pre := 0x80000005, sts_pst := 3\<rparr>\<rparr>) = 8"
proof -
  have a: "pointer s = (uint (sts_pre (regset s) AND 0x7fffffff)
               + uint (sts_pst (regset s) AND 0x7fffffff)) mod 16384"
    by (simp add: pointer_def N_def Let_def)
  have b: "uint (sts_pre (regset s) AND 0x7fffffff) < 2 ^ 31"
       "uint (sts_pst (regset s) AND 0x7fffffff) < 2 ^ 31"
    by (simp_all only: uint_and_7f) simp_all
  have c: "pointer (s\<lparr>regset := (regset s)\<lparr>sts_pre := 0x80000005, sts_pst := 3\<rparr>\<rparr>) = 8"
    by (simp add: pointer_def N_def Let_def uint_and_7f)
  show ?thesis using a b c by (simp add: uint_and_7f)
qed

subsection \<open>Decimation\<close>

text \<open>
  Claim C5.  For a decimation factor \<open>d\<close> from 1 to \<open>2 ^ 17\<close>, the setter stores \<open>d - 1\<close>
  in \<open>cfg_dec\<close>, the getter returns \<open>d\<close>, the sample rate is \<open>FS / d\<close> with
  \<open>FS = 125000000\<close>, and the sample period is the inverse of the sample rate.
\<close>

theorem decimation_roundtrip:
  assumes "1 \<le> d" and "d \<le> 2 ^ 17"
  shows "uint (cfg_dec (regset (decimation_set d s))) = d - 1
       \<and> decimation (decimation_set d s) = d
       \<and> sample_rate (decimation_set d s) = FS / real_of_int d
       \<and> FS = 125000000
       \<and> sample_period (decimation_set d s) = 1 / sample_rate (decimation_set d s)"
proof -
  have "uint (word_of_int (d - 1) :: 32 word) = (d - 1) mod 2 ^ 32"
    by (simp only: uint_word_of_int) simp
  also have "\<dots> = d - 1"
    using assms by simp
  finally have "uint (word_of_int (d - 1) :: 32 word) = d - 1" .
  then show ?thesis
    by (simp add: decimation_set_def decimation_def sample_rate_def sample_period_def FS_def)
qed

theorem decimation_roundtrip_witness:
  "uint (cfg_dec (regset (decimation_set 8 (osc_zero 1)))) = 7
   \<and> decimation (decimation_set 8 (osc_zero 1)) = 8
   \<and> sample_rate (decimation_set 8 (osc_zero 1)) = 15625000
   \<and> sample_period (decimation_set 8 (osc_zero 1)) = 1 / 15625000"
  using decimation_roundtrip [of 8 "osc_zero 1"] by simp

subsection \<open>Trigger edge\<close>

text \<open>
  Claim C6.  The edge setter stores 0 in \<open>cfg_edg\<close> for each of \<open>positive\<close>, \<open>pos\<close>,
  \<open>p\<close>, \<open>+\<close>, stores 1 for each of \<open>negative\<close>, \<open>neg\<close>, \<open>n\<close>, \<open>-\<close>, and for any other
  string raises \<open>ValueError\<close> with the state unchanged.
\<close>

theorem edge_set_aliases:
  "(v \<in> {''positive'', ''pos'', ''p'', ''+''} \<longrightarrow>
      edge_set v s = (Done, s\<lparr>regset := (regset s)\<lparr>cfg_edg := 0\<rparr>\<rparr>))
   \<and> (v \<in> {''negative'', ''neg'', ''n'', ''-''} \<longrightarrow>
      edge_set v s = (Done, s\<lparr>regset := (regset s)\<lparr>cfg_edg := 1\<rparr>\<rparr>))
   \<and> (v \<notin> {''positive'', ''pos'', ''p'', ''+'', ''negative'', ''neg'', ''n'', ''-''} \<longrightarrow>
      edge_set v s = (Raised ValueError, s))"
  by (auto simp add: edge_set_def edges_def)

theorem edge_set_aliases_witness:
  "edge_set ''pos'' (osc_zero 1) = (Done, (osc_zero 1)\<lparr>regset := regset_zero\<lparr>cfg_edg := 0\<rparr>\<rparr>)
   \<and> edge_set ''-'' (osc_zero 1) = (Done, (osc_zero 1)\<lparr>regset := regset_zero\<lparr>cfg_edg := 1\<rparr>\<rparr>)
   \<and> edge_set ''rising'' (osc_zero 1) = (Raised ValueError, osc_zero 1)"
  using edge_set_aliases [of "''pos''" "osc_zero 1"] edge_set_aliases [of "''-''" "osc_zero 1"]
    edge_set_aliases [of "''rising''" "osc_zero 1"]
  by (simp add: osc_zero_def)

subsection \<open>Filter bypass and averaging\<close>

text \<open>
  Claim C7.  Setting the bypass flag to false should store 0 in \<open>cfg_byp\<close>.  The code
  raises \<open>AttributeError\<close> instead and leaves the state as it was, so that after
  enabling the bypass and then disabling it the flag still reads true.
\<close>

theorem filter_bypass_disable_raises:
  "filter_bypass_set False s = (Raised AttributeError, s)
   \<and> filter_bypass (snd (filter_bypass_set True s))
   \<and> filter_bypass (snd (filter_bypass_set False (snd (filter_bypass_set True s))))"
  by (simp add: filter_bypass_set_def filter_bypass_def)

text \<open>
  Claim C8.  Enabling averaging should complete and store the shift amount in
  \<open>cfg_shr\<close>.  The code stores 1 in \<open>cfg_avg\<close> and then raises \<open>NameError\<close>; \<open>cfg_shr\<close>
  keeps its old value.
\<close>

theorem average_enable_raises:
  "average_set True s = (Raised NameError, s\<lparr>regset := (regset s)\<lparr>cfg_avg := 1\<rparr>\<rparr>)
   \<and> cfg_shr (regset (snd (average_set True s))) = cfg_shr (regset s)"
  by (simp add: average_set_def Let_def)

subsection \<open>Input range\<close>

text \<open>
  Claim C9.  An input range other than 1.0 and 20.0 raises \<open>ValueError\<close> with no register
  written, through the setter and at construction; 1.0 and 20.0 are stored, and the four
  coefficients of the static table are written to \<open>cfg_faa\<close>, \<open>cfg_fbb\<close>, \<open>cfg_fkk\<close> and
  \<open>cfg_fpp\<close>.
\<close>

theorem input_range_validated:
  "(v \<notin> {1, 20} \<longrightarrow>
      input_range_set v s = (Raised ValueError, s)
      \<and> osc_init regs tbl v =
          (Raised ValueError, \<lparr>input_range = None, regset = regs, table = tbl\<rparr>))
   \<and> input_range_set 1 s =
       (Done, s\<lparr>input_range := Some 1,
                regset := (regset s)\<lparr>cfg_faa := 0x7D93, cfg_fbb := 0x437C7,
                                      cfg_fkk := 0xd9999a, cfg_fpp := 0x2666\<rparr>\<rparr>)
   \<and> input_range_set 20 s =
       (Done, s\<lparr>input_range := Some 20,
                regset := (regset s)\<lparr>cfg_faa := 0x4C5F, cfg_fbb := 0x2F38B,
                                      cfg_fkk := 0xd9999a, cfg_fpp := 0x2666\<rparr>\<rparr>)
   \<and> filter_coeficients (snd (input_range_set 1 s)) = (0x7D93, 0x437C7, 0xd9999a, 0x2666)
   \<and> filter_coeficients (snd (input_range_set 20 s)) = (0x4C5F, 0x2F38B, 0xd9999a, 0x2666)
   \<and> osc_init regs tbl 1 =
       (Done, \<lparr>input_range = Some 1,
               regset = regs\<lparr>cfg_faa := 0x7D93, cfg_fbb := 0x437C7,
                             cfg_fkk := 0xd9999a, cfg_fpp := 0x2666\<rparr>,
               table = tbl\<rparr>)
   \<and> osc_init regs tbl 20 =
       (Done, \<lparr>input_range = Some 20,
               regset = regs\<lparr>cfg_faa := 0x4C5F, cfg_fbb := 0x2F38B,
                             cfg_fkk := 0xd9999a, cfg_fpp := 0x2666\<rparr>,
               table = tbl\<rparr>)"
  by (simp add: input_range_set_def osc_init_def ranges_def filters_def
      filter_coeficients_set_def filter_coeficients_def Let_def)

theorem input_range_validated_witness:
  "input_range_set 5 (osc_zero 1) = (Raised ValueError, osc_zero 1)
   \<and> osc_init regset_zero [] 5 =
       (Raised ValueError, \<lparr>input_range = None, regset = regset_zero, table = []\<rparr>)"
  using input_range_validated [of 5 "osc_zero 1" regset_zero "[]"] by simp

subsection \<open>Binary64 rounding\<close>

text \<open>
  Facts about \<open>float64\<close>: the exponent found by the search, the rounding error of half a
  unit in the last place, and that a rounded value never crosses an integer.
\<close>

lemma pow2_pos: "0 < pow2 k"
  by (simp add: pow2_def)

lemma pow2_powr: "pow2 k = 2 powr real_of_int k"
proof (cases "0 \<le> k")
  case True
  then have "2 powr real_of_int k = (2::real) powr real (nat k)" by simp
  also have "\<dots> = 2 ^ nat k" by (simp add: powr_realpow)
  finally show ?thesis using True by (simp add: pow2_def)
next
  case False
  then have "real_of_int k = - real (nat (- k))" by simp
  then have "2 powr real_of_int k = 1 / (2::real) powr real (nat (- k))"
    by (simp only: powr_minus_divide)
  also have "\<dots> = 1 / 2 ^ nat (- k)" by (simp add: powr_realpow)
  finally show ?thesis using False by (simp add: pow2_def)
qed

lemma pow2_mono: "k \<le> j \<Longrightarrow> pow2 k \<le> pow2 j"
  by (simp add: pow2_powr)

lemma pow2_less_iff: "pow2 k < pow2 j \<longleftrightarrow> k < j"
  by (simp add: pow2_powr)

lemma pow2_inverse_nat:
  assumes "k \<le> 0"
  shows "x / pow2 k = x * 2 ^ nat (- k)"
proof (cases "k = 0")
  case True
  then show ?thesis by (simp add: pow2_def)
next
  case False
  with assms show ?thesis by (simp add: pow2_def)
qed

lemma ilogb_from_cases:
  "ilogb_from n j a = j - int n \<or> pow2 (ilogb_from n j a) \<le> a"
proof (induction n arbitrary: j)
  case 0
  then show ?case by simp
next
  case (Suc n)
  show ?case
  proof (cases "pow2 j \<le> a")
    case True
    then show ?thesis by simp
  next
    case False
    from Suc [of "j - 1"] show ?thesis
    proof
      assume "ilogb_from n (j - 1) a = j - 1 - int n"
      with False show ?thesis by simp
    next
      assume "pow2 (ilogb_from n (j - 1) a) \<le> a"
      with False show ?thesis by simp
    qed
  qed
qed

lemma ilogb_from_eq:
  assumes "pow2 k \<le> a" and "a < pow2 (k + 1)" and "k \<le> j" and "j - k \<le> int n"
  shows "ilogb_from n j a = k"
  using assms
proof (induction n arbitrary: j)
  case 0
  then show ?case by simp
next
  case (Suc n)
  show ?case
  proof (cases "pow2 j \<le> a")
    case True
    with Suc.prems(2) have "pow2 j < pow2 (k + 1)" by simp
    then have "j < k + 1" by (simp only: pow2_less_iff)
    with Suc.prems(3) True show ?thesis by simp
  next
    case False
    with Suc.prems(1) have "k \<noteq> j" by auto
    with Suc.prems have "ilogb_from n (j - 1) a = k"
      by (intro Suc.IH) simp_all
    with False show ?thesis by simp
  qed
qed

lemma ilogb_from_le:
  assumes "a < pow2 (k + 1)" and "j - int n \<le> k"
  shows "ilogb_from n j a \<le> k"
proof -
  from ilogb_from_cases [of n j a] show ?thesis
  proof
    assume "ilogb_from n j a = j - int n"
    with assms(2) show ?thesis by simp
  next
    assume "pow2 (ilogb_from n j a) \<le> a"
    with assms(1) have "pow2 (ilogb_from n j a) < pow2 (k + 1)" by simp
    then have "ilogb_from n j a < k + 1" by (simp only: pow2_less_iff)
    then show ?thesis by simp
  qed
qed

lemma float64_exponent_eq:
  assumes "pow2 k \<le> \<bar>x\<bar>" and "\<bar>x\<bar> < pow2 (k + 1)" and "- 1022 \<le> k" and "k \<le> 1023"
  shows "float64_exponent x = k"
proof -
  have "1023 - k \<le> int 2046" using assms(3) by simp
  with assms(1,2,4) show ?thesis
    unfolding float64_exponent_def by (rule ilogb_from_eq)
qed

lemma float64_exponent_le:
  assumes "\<bar>x\<bar> < pow2 (k + 1)" and "- 1023 \<le> k"
  shows "float64_exponent x \<le> k"
proof -
  have "1023 - int 2046 \<le> k" using assms(2) by simp
  with assms(1) show ?thesis
    unfolding float64_exponent_def by (rule ilogb_from_le)
qed

lemma round_half_even_err: "\<bar>real_of_int (round_half_even y) - y\<bar> \<le> 1 / 2"
proof -
  define f where "f = \<lfloor>y\<rfloor>"
  define d where "d = y - real_of_int f"
  have d: "0 \<le> d" "d < 1" unfolding d_def f_def by linarith+
  have y: "y = real_of_int f + d" by (simp add: d_def)
  have r: "round_half_even y = (if d < 1 / 2 then f else if 1 / 2 < d then f + 1
      else if even f then f else f + 1)"
    by (simp add: round_half_even_def Let_def f_def d_def)
  show ?thesis
  proof (cases "d < 1 / 2")
    case True
    then have "round_half_even y = f" by (simp add: r)
    then show ?thesis using d True unfolding d_def by simp
  next
    case False
    note nlt = this
    show ?thesis
    proof (cases "1 / 2 < d")
      case True
      then have "round_half_even y = f + 1" using nlt by (simp add: r)
      then show ?thesis using d True unfolding d_def by simp
    next
      case False
      with nlt have h: "d = 1 / 2" by simp
      then have "round_half_even y = f \<or> round_half_even y = f + 1" by (simp add: r)
      then show ?thesis using h unfolding d_def by auto
    qed
  qed
qed

lemma round_half_even_of_int: "round_half_even (real_of_int m) = m"
  by (simp add: round_half_even_def)

lemma round_half_even_ge:
  assumes "real_of_int a \<le> y"
  shows "a \<le> round_half_even y"
proof -
  have "a \<le> \<lfloor>y\<rfloor>" using assms by (simp add: le_floor_iff)
  then show ?thesis by (auto simp: round_half_even_def Let_def)
qed

lemma round_half_even_le:
  assumes "y \<le> real_of_int b"
  shows "round_half_even y \<le> b"
proof (cases "y = real_of_int b")
  case True
  then show ?thesis by (simp add: round_half_even_of_int)
next
  case False
  with assms have "y < real_of_int b" by simp
  then have "\<lfloor>y\<rfloor> < b" by (simp add: floor_less_iff)
  then have "\<lfloor>y\<rfloor> + 1 \<le> b" by simp
  then show ?thesis by (auto simp: round_half_even_def Let_def)
qed

lemma float64_unfold:
  "float64 x = real_of_int (round_half_even (x / pow2 (max (float64_exponent x - 52) (- 1074))))
                 * pow2 (max (float64_exponent x - 52) (- 1074))"
  by (simp add: float64_def Let_def)

lemma float64_err:
  assumes "\<bar>x\<bar> < pow2 (k + 1)" and "- 1022 \<le> k"
  shows "\<bar>float64 x - x\<bar> \<le> pow2 (k - 52) / 2"
proof -
  define ue where "ue = max (float64_exponent x - 52) (- 1074)"
  define u where "u = pow2 ue"
  have "float64_exponent x \<le> k" using assms by (intro float64_exponent_le) simp_all
  then have "ue \<le> k - 52" using assms(2) by (simp add: ue_def)
  then have uk: "u \<le> pow2 (k - 52)" unfolding u_def by (rule pow2_mono)
  have u0: "0 < u" by (simp add: u_def pow2_pos)
  have "float64 x - x = (real_of_int (round_half_even (x / u)) - x / u) * u"
    using u0 by (simp add: float64_unfold u_def ue_def left_diff_distrib)
  then have "\<bar>float64 x - x\<bar> = \<bar>real_of_int (round_half_even (x / u)) - x / u\<bar> * u"
    using u0 by (simp add: abs_mult)
  also have "\<dots> \<le> 1 / 2 * u"
    using round_half_even_err [of "x / u"] u0 by (intro mult_right_mono) simp_all
  also have "\<dots> \<le> pow2 (k - 52) / 2" using uk by simp
  finally show ?thesis .
qed

lemma float64_exact:
  assumes "pow2 k \<le> \<bar>x\<bar>" and "\<bar>x\<bar> < pow2 (k + 1)" and "- 1022 \<le> k" and "k \<le> 1023"
    and "x / pow2 (k - 52) = real_of_int m"
  shows "float64 x = x"
proof -
  have e: "float64_exponent x = k" using assms(1-4) by (rule float64_exponent_eq)
  have m: "max (k - 52) (- 1074) = k - 52" using assms(3) by simp
  have "0 < pow2 (k - 52)" by (rule pow2_pos)
  then have "real_of_int m * pow2 (k - 52) = x" using assms(5) by (simp add: field_simps)
  then show ?thesis
    by (simp add: float64_unfold e m assms(5) round_half_even_of_int)
qed

lemma float64_between:
  assumes "\<bar>x\<bar> < pow2 53"
  shows "real_of_int \<lfloor>x\<rfloor> \<le> float64 x \<and> float64 x \<le> real_of_int \<lceil>x\<rceil>"
proof -
  define ue where "ue = max (float64_exponent x - 52) (- 1074)"
  define u where "u = pow2 ue"
  define M :: int where "M = 2 ^ nat (- ue)"
  have "float64_exponent x \<le> 52" using assms by (intro float64_exponent_le) simp_all
  then have ue0: "ue \<le> 0" by (simp add: ue_def)
  have div: "y / u = y * real_of_int M" for y
    unfolding u_def M_def using pow2_inverse_nat [OF ue0, of y] by simp
  have u0: "0 < u" by (simp add: u_def pow2_pos)
  have Mu: "real_of_int M * u = 1" using div [of u] u0 by (simp add: mult.commute)
  have M0: "0 < real_of_int M" by (simp add: M_def)
  have f: "float64 x = real_of_int (round_half_even (x / u)) * u"
    by (simp add: float64_unfold u_def ue_def)
  have lo: "real_of_int \<lfloor>x\<rfloor> \<le> float64 x"
  proof -
    have "real_of_int \<lfloor>x\<rfloor> * real_of_int M \<le> x * real_of_int M"
      using M0 by (intro mult_right_mono) simp_all
    then have "real_of_int (\<lfloor>x\<rfloor> * M) \<le> x / u" by (simp add: div)
    then have "\<lfloor>x\<rfloor> * M \<le> round_half_even (x / u)" by (rule round_half_even_ge)
    then have "real_of_int (\<lfloor>x\<rfloor> * M) \<le> real_of_int (round_half_even (x / u))"
      by (simp only: of_int_le_iff)
    then have "real_of_int (\<lfloor>x\<rfloor> * M) * u \<le> real_of_int (round_half_even (x / u)) * u"
      using u0 by (intro mult_right_mono) simp_all
    then have le: "real_of_int (\<lfloor>x\<rfloor> * M) * u \<le> real_of_int (round_half_even (x / u)) * u" .
    have "real_of_int \<lfloor>x\<rfloor> = real_of_int \<lfloor>x\<rfloor> * (real_of_int M * u)"
      by (simp only: Mu mult_1_right)
    also have "\<dots> = real_of_int (\<lfloor>x\<rfloor> * M) * u"
      by (simp only: of_int_mult mult.assoc)
    also note le
    finally show ?thesis unfolding f .
  qed
  have hi: "float64 x \<le> real_of_int \<lceil>x\<rceil>"
  proof -
    have "x * real_of_int M \<le> real_of_int \<lceil>x\<rceil> * real_of_int M"
      using M0 by (intro mult_right_mono) simp_all
    then have "x / u \<le> real_of_int (\<lceil>x\<rceil> * M)" by (simp add: div)
    then have "round_half_even (x / u) \<le> \<lceil>x\<rceil> * M" by (rule round_half_even_le)
    then have "real_of_int (round_half_even (x / u)) \<le> real_of_int (\<lceil>x\<rceil> * M)"
      by (simp only: of_int_le_iff)
    then have "real_of_int (round_half_even (x / u)) * u \<le> real_of_int (\<lceil>x\<rceil> * M) * u"
      using u0 by (intro mult_right_mono) simp_all
    then have "real_of_int (round_half_even (x / u)) * u \<le> real_of_int (\<lceil>x\<rceil> * M) * u" .
    also have "\<dots> = real_of_int \<lceil>x\<rceil> * (real_of_int M * u)"
      by (simp only: of_int_mult mult.assoc)
    also have "\<dots> = real_of_int \<lceil>x\<rceil>"
      by (simp only: Mu mult_1_right)
    finally show ?thesis unfolding f .
  qed
  from lo hi show ?thesis ..
qed

lemma trunc_float64_between:
  assumes "\<bar>x\<bar> < pow2 53"
  shows "\<lfloor>x\<rfloor> \<le> trunc (float64 x) \<and> trunc (float64 x) \<le> \<lceil>x\<rceil>"
proof -
  note b = float64_between [OF assms]
  have lo: "\<lfloor>x\<rfloor> \<le> \<lfloor>float64 x\<rfloor>" using b by (simp add: le_floor_iff)
  have hi: "\<lceil>float64 x\<rceil> \<le> \<lceil>x\<rceil>" using b by (simp add: ceiling_le_iff)
  have fc: "\<lfloor>float64 x\<rfloor> \<le> \<lceil>float64 x\<rceil>" by linarith
  show ?thesis
  proof (cases "float64 x < 0")
    case True
    then have "trunc (float64 x) = \<lceil>float64 x\<rceil>" by (simp add: trunc_def)
    with lo hi fc show ?thesis by linarith
  next
    case False
    then have "trunc (float64 x) = \<lfloor>float64 x\<rfloor>" by (simp add: trunc_def)
    with lo hi fc show ?thesis by linarith
  qed
qed

lemma trunc_float64_err:
  assumes "\<bar>x\<bar> < pow2 53"
  shows "\<bar>real_of_int (trunc (float64 x)) - x\<bar> < 1"
proof -
  from trunc_float64_between [OF assms]
  have "\<lfloor>x\<rfloor> \<le> trunc (float64 x)" "trunc (float64 x) \<le> \<lceil>x\<rceil>" by simp_all
  then have "real_of_int \<lfloor>x\<rfloor> \<le> real_of_int (trunc (float64 x))"
    "real_of_int (trunc (float64 x)) \<le> real_of_int \<lceil>x\<rceil>"
    by (simp_all only: of_int_le_iff)
  then show ?thesis by linarith
qed

lemma pow2_53: "pow2 53 = 9007199254740992"
  by (simp add: pow2_def)

lemma float64_32767: "float64 32767 = 32767"
proof (rule float64_exact [where k = 14 and m = "32767 * 2 ^ 38"])
  show "pow2 14 \<le> \<bar>32767 :: real\<bar>" by (simp add: pow2_def)
  show "\<bar>32767 :: real\<bar> < pow2 (14 + 1)" by (simp add: pow2_def)
  show "32767 / pow2 (14 - 52) = real_of_int (32767 * 2 ^ 38)" by (simp add: pow2_def)
qed simp_all

subsection \<open>Trigger level\<close>

lemma sint_int32_small:
  assumes "\<bar>k\<bar> \<le> 32767"
  shows "sint (word_of_int k :: 32 word) = k"
proof -
  have "- (2 ^ 31) \<le> k" "k < 2 ^ 31" using assms by simp_all
  then show ?thesis
    by (simp add: signed_of_int signed_take_bit_int_eq_self)
qed

lemma ranges_cases: "r \<in> set ranges \<Longrightarrow> r = 1 \<or> r = 20"
  by (auto simp: ranges_def)

lemma count_bounds:
  assumes sf: "0 \<le> sf" "sf \<le> real_of_int K" and K: "K \<le> 32767"
    and e: "\<bar>sf - s\<bar> \<le> e" and v: "- 1 \<le> v" "v \<le> 1"
  shows "\<bar>trunc (float64 (v * sf))\<bar> \<le> K"
    and "\<bar>real_of_int (trunc (float64 (v * sf))) - v * sf\<bar> < 1"
    and "\<bar>real_of_int (trunc (float64 (v * sf))) - v * s\<bar> < 1 + e"
proof -
  define c where "c = trunc (float64 (v * sf))"
  have av: "\<bar>v\<bar> \<le> 1" using v by (simp add: abs_le_iff)
  have "\<bar>v * sf\<bar> = \<bar>v\<bar> * sf" using sf(1) by (simp add: abs_mult)
  also have "\<dots> \<le> 1 * sf" using av sf(1) by (intro mult_right_mono) simp_all
  finally have p: "\<bar>v * sf\<bar> \<le> real_of_int K" using sf(2) by simp
  have "real_of_int K \<le> 32767" using K by simp
  with p have "\<bar>v * sf\<bar> < pow2 53" by (simp add: pow2_53)
  note b = trunc_float64_between [OF this] and t = trunc_float64_err [OF this]
  have "- K \<le> \<lfloor>v * sf\<rfloor>" using p by (simp add: le_floor_iff abs_le_iff)
  moreover have "\<lceil>v * sf\<rceil> \<le> K" using p by (simp add: ceiling_le_iff abs_le_iff)
  ultimately show "\<bar>trunc (float64 (v * sf))\<bar> \<le> K" using b by linarith
  show "\<bar>real_of_int (trunc (float64 (v * sf))) - v * sf\<bar> < 1" by (rule t)
  have "\<bar>v * sf - v * s\<bar> = \<bar>v\<bar> * \<bar>sf - s\<bar>"
    by (simp add: abs_mult flip: right_diff_distrib)
  also have "\<dots> \<le> 1 * e"
    using av e by (intro mult_mono) simp_all
  finally have "\<bar>v * sf - v * s\<bar> \<le> e" by simp
  with t show "\<bar>real_of_int (trunc (float64 (v * sf))) - v * s\<bar> < 1 + e" by linarith
qed

lemma readback_bound:
  assumes d: "\<bar>qf - q\<bar> \<le> d" and c: "\<bar>c\<bar> \<le> K" and q: "0 \<le> q"
    and Kd: "real_of_int K * d \<le> 1 / 2 ^ 53" and Kq: "real_of_int K * (q + d) < 2"
  shows "\<bar>float64 (real_of_int c * qf) - real_of_int c * q\<bar> \<le> 1 / 2 ^ 52"
proof -
  have K0: "0 \<le> real_of_int K" using c by linarith
  have ac: "\<bar>real_of_int c\<bar> \<le> real_of_int K" using c by linarith
  have d0: "0 \<le> d" using d by linarith
  have aq: "\<bar>qf\<bar> \<le> q + d" using d q by linarith
  have "\<bar>real_of_int c * qf\<bar> = \<bar>real_of_int c\<bar> * \<bar>qf\<bar>" by (simp add: abs_mult)
  also have "\<dots> \<le> real_of_int K * (q + d)"
    using ac aq K0 by (intro mult_mono) simp_all
  finally have "\<bar>real_of_int c * qf\<bar> < pow2 (0 + 1)" using Kq by (simp add: pow2_def)
  then have t1: "\<bar>float64 (real_of_int c * qf) - real_of_int c * qf\<bar> \<le> pow2 (0 - 52) / 2"
    by (rule float64_err) simp
  have "\<bar>real_of_int c * qf - real_of_int c * q\<bar> = \<bar>real_of_int c\<bar> * \<bar>qf - q\<bar>"
    by (simp add: abs_mult flip: right_diff_distrib)
  also have "\<dots> \<le> real_of_int K * d"
    using ac d K0 by (intro mult_mono) simp_all
  finally have t2: "\<bar>real_of_int c * qf - real_of_int c * q\<bar> \<le> 1 / 2 ^ 53" using Kd by simp
  have "pow2 (0 - 52) / 2 = 1 / 2 ^ 53" by (simp add: pow2_def)
  with t1 have t1': "\<bar>float64 (real_of_int c * qf) - real_of_int c * qf\<bar> \<le> 1 / 2 ^ 53"
    by simp
  have "(1::real) / 2 ^ 53 + 1 / 2 ^ 53 = 1 / 2 ^ 52" by simp
  with t1' t2 show ?thesis by linarith
qed

lemma scale_facts:
  assumes "r \<in> set ranges"
  shows "0 \<le> float64 (real_of_int DWr / r)"
    and "float64 (real_of_int DWr / r) \<le> real_of_int \<lceil>real_of_int DWr / r\<rceil>"
    and "\<lceil>real_of_int DWr / r\<rceil> \<le> 32767"
    and "\<bar>float64 (real_of_int DWr / r) - real_of_int DWr / r\<bar> \<le> 1 / 2 ^ 43"
proof -
  define s where "s = real_of_int DWr / r"
  have s: "s = 32767 \<or> s = 32767 / 20"
    using ranges_cases [OF assms] by (auto simp: s_def DWr_eq)
  then have "\<bar>s\<bar> < pow2 53" by (auto simp: pow2_53)
  note b = float64_between [OF this]
  have "0 \<le> \<lfloor>s\<rfloor>" using s by auto
  then have "(0::real) \<le> real_of_int \<lfloor>s\<rfloor>" by simp
  with b show "0 \<le> float64 (real_of_int DWr / r)" unfolding s_def by linarith
  from b show "float64 (real_of_int DWr / r) \<le> real_of_int \<lceil>real_of_int DWr / r\<rceil>"
    unfolding s_def by simp
  have "\<lceil>s\<rceil> \<le> 32767" using s by auto
  then show "\<lceil>real_of_int DWr / r\<rceil> \<le> 32767" by (simp only: s_def)
  from s show "\<bar>float64 (real_of_int DWr / r) - real_of_int DWr / r\<bar> \<le> 1 / 2 ^ 43"
    unfolding s_def [symmetric]
  proof
    assume "s = 32767"
    then show "\<bar>float64 s - s\<bar> \<le> 1 / 2 ^ 43" by (simp add: float64_32767)
  next
    assume h: "s = 32767 / 20"
    have "\<bar>s\<bar> < pow2 (10 + 1)" by (simp add: h pow2_def)
    then have "\<bar>float64 s - s\<bar> \<le> pow2 (10 - 52) / 2" by (rule float64_err) simp
    then show "\<bar>float64 s - s\<bar> \<le> 1 / 2 ^ 43" by (simp add: pow2_def)
  qed
qed

lemma readback_facts:
  assumes "r \<in> set ranges" and "\<bar>c\<bar> \<le> \<lceil>real_of_int DWr / r\<rceil>"
  shows "\<bar>float64 (real_of_int c * float64 (r / real_of_int DWr)) - real_of_int c * (r / real_of_int DWr)\<bar>
           \<le> 1 / 2 ^ 52"
proof -
  from ranges_cases [OF assms(1)] show ?thesis
  proof
    assume r: "r = 1"
    have "\<bar>1 / 32767 :: real\<bar> < pow2 (- 15 + 1)" by (simp add: pow2_def)
    then have "\<bar>float64 (1 / 32767) - 1 / 32767\<bar> \<le> pow2 (- 15 - 52) / 2"
      by (rule float64_err) simp
    then have d: "\<bar>float64 (1 / 32767) - 1 / 32767\<bar> \<le> 1 / 2 ^ 68" by (simp add: pow2_def)
    have c: "\<bar>c\<bar> \<le> 32767" using assms(2) by (simp add: r DWr_eq)
    have "\<bar>float64 (real_of_int c * float64 (1 / 32767)) - real_of_int c * (1 / 32767)\<bar> \<le> 1 / 2 ^ 52"
      using d c by (rule readback_bound) simp_all
    then show ?thesis by (simp add: r DWr_eq)
  next
    assume r: "r = 20"
    have "\<bar>20 / 32767 :: real\<bar> < pow2 (- 11 + 1)" by (simp add: pow2_def)
    then have "\<bar>float64 (20 / 32767) - 20 / 32767\<bar> \<le> pow2 (- 11 - 52) / 2"
      by (rule float64_err) simp
    then have d: "\<bar>float64 (20 / 32767) - 20 / 32767\<bar> \<le> 1 / 2 ^ 64" by (simp add: pow2_def)
    have c: "\<bar>c\<bar> \<le> 1639" using assms(2) by (simp add: r DWr_eq)
    have "\<bar>float64 (real_of_int c * float64 (20 / 32767)) - real_of_int c * (20 / 32767)\<bar> \<le> 1 / 2 ^ 52"
      using d c by (rule readback_bound) simp_all
    then show ?thesis by (simp add: r DWr_eq)
  qed
qed

lemma float64_eval:
  assumes "pow2 k \<le> \<bar>x\<bar>" and "\<bar>x\<bar> < pow2 (k + 1)" and "- 1022 \<le> k" and "k \<le> 1023"
  shows "float64 x = real_of_int (round_half_even (x / pow2 (k - 52))) * pow2 (k - 52)"
proof -
  have e: "float64_exponent x = k" using assms by (rule float64_exponent_eq)
  have m: "max (k - 52) (- 1074) = k - 52" using assms(3) by simp
  show ?thesis by (simp only: float64_unfold e m)
qed

lemma float64_examples:
  "float64 (32767 / 4) = 32767 / 4"
  "float64 (- (32767 / 4)) = - (32767 / 4)"
  "float64 (32767 / 2) = 32767 / 2"
proof -
  show "float64 (32767 / 4) = 32767 / 4"
    by (rule float64_exact [where k = 12 and m = "32767 * 2 ^ 38"]) (simp_all add: pow2_def)
  show "float64 (- (32767 / 4)) = - (32767 / 4)"
    by (rule float64_exact [where k = 12 and m = "- (32767 * 2 ^ 38)"]) (simp_all add: pow2_def)
  show "float64 (32767 / 2) = 32767 / 2"
    by (rule float64_exact [where k = 13 and m = "32767 * 2 ^ 38"]) (simp_all add: pow2_def)
qed

lemma float64_rounds_up_to_one:
  "float64 (35185445863425 / 2 ^ 60 * 32767) = 1"
proof -
  define x :: real where "x = 35185445863425 / 2 ^ 60 * 32767"
  have x: "x = 1152921504606846975 / 1152921504606846976" by (simp add: x_def)
  have "float64 x = real_of_int (round_half_even (x / pow2 (- 1 - 52))) * pow2 (- 1 - 52)"
    by (rule float64_eval) (simp_all add: x pow2_def)
  also have "x / pow2 (- 1 - 52) = 1152921504606846975 / 128"
    by (simp add: x pow2_def)
  also have "round_half_even (1152921504606846975 / 128) = 9007199254740992"
    by (simp add: round_half_even_def Let_def)
  also have "real_of_int 9007199254740992 * pow2 (- 1 - 52) = 1"
    by (simp add: pow2_def)
  finally show ?thesis by (simp only: x_def)
qed

lemma volts_error:
  assumes r: "r \<in> set ranges" and v: "- 1 \<le> v" "v \<le> 1"
  defines "c \<equiv> trunc (float64 (v * float64 (real_of_int DWr / r)))"
  shows "\<bar>float64 (real_of_int c * float64 (r / real_of_int DWr)) - v\<bar>
           < r / real_of_int DWr + 1 / 2 ^ 51"
proof -
  define q where "q = r / real_of_int DWr"
  define s where "s = real_of_int DWr / r"
  have rr: "r = 1 \<or> r = 20" using r by (rule ranges_cases)
  have q0: "0 < q" using rr by (auto simp: q_def DWr_eq)
  have qs: "q * s = 1" using rr by (auto simp: q_def s_def DWr_eq)
  have qle: "q \<le> 1 / 2 ^ 10" using rr by (auto simp: q_def DWr_eq)
  note sc = scale_facts [OF r]
  have cK: "\<bar>c\<bar> \<le> \<lceil>real_of_int DWr / r\<rceil>"
    unfolding c_def using sc v
    by (intro count_bounds(1) [where s = "real_of_int DWr / r" and e = "1 / 2 ^ 43"]) simp_all
  have ce: "\<bar>real_of_int c - v * s\<bar> < 1 + 1 / 2 ^ 43"
    unfolding c_def s_def using sc v
    by (intro count_bounds(3) [where K = "\<lceil>real_of_int DWr / r\<rceil>"]) simp_all
  have rb: "\<bar>float64 (real_of_int c * float64 q) - real_of_int c * q\<bar> \<le> 1 / 2 ^ 52"
    unfolding q_def using r cK by (rule readback_facts)
  have "real_of_int c * q - v = q * (real_of_int c - v * s)"
    using qs by (simp add: algebra_simps)
  then have "\<bar>real_of_int c * q - v\<bar> = q * \<bar>real_of_int c - v * s\<bar>"
    using q0 by (simp add: abs_mult)
  also have "\<dots> < q * (1 + 1 / 2 ^ 43)"
    using ce q0 by (intro mult_strict_left_mono) simp_all
  also have "\<dots> = q + q * (1 / 2 ^ 43)" by (simp add: algebra_simps)
  also have "\<dots> \<le> q + 1 / 2 ^ 10 * (1 / 2 ^ 43)"
    using qle by (intro add_left_mono mult_right_mono) simp_all
  finally have t3: "\<bar>real_of_int c * q - v\<bar> < q + 1 / 2 ^ 53" by simp
  have "(1::real) / 2 ^ 52 + 1 / 2 ^ 53 < 1 / 2 ^ 51" by simp
  with rb t3 have "\<bar>float64 (real_of_int c * float64 q) - v\<bar> < q + 1 / 2 ^ 51"
    by linarith
  then show ?thesis unfolding q_def .
qed


text \<open>
  Claim C3, as the code has it.  When either level lies outside \<open>[-1, 1]\<close> the setter
  raises and \<open>cfg_pos\<close> keeps its value.  \<open>cfg_neg\<close> keeps its value when the negative
  level is the one out of range; when the negative level is in range and the positive
  level is not, the count of the negative level (the float product \<open>level * (DWr / range)\<close>
  with its fraction dropped) is already in \<open>cfg_neg\<close> at the time of the raise.
\<close>

theorem level_set_rejects:
  assumes "input_range s = Some r" and "r \<in> set ranges"
    and "\<not> (- 1 \<le> vn \<and> vn \<le> 1) \<or> \<not> (- 1 \<le> vp \<and> vp \<le> 1)"
  shows "(\<exists>e. fst (level_set (vn, vp) s) = Raised e)
       \<and> cfg_pos (regset (snd (level_set (vn, vp) s))) = cfg_pos (regset s)
       \<and> (\<not> (- 1 \<le> vn \<and> vn \<le> 1) \<longrightarrow> snd (level_set (vn, vp) s) = s)
       \<and> (- 1 \<le> vn \<and> vn \<le> 1 \<longrightarrow>
            snd (level_set (vn, vp) s) =
              s\<lparr>regset := (regset s)
                 \<lparr>cfg_neg := word_of_int
                    (trunc (float64 (vn * float64 (real_of_int DWr / r))))\<rparr>\<rparr>
            \<and> sint (cfg_neg (regset (snd (level_set (vn, vp) s))))
                = trunc (float64 (vn * float64 (real_of_int DWr / r))))"
proof -
  have r0: "r \<noteq> 0" using assms(2) by (auto simp: ranges_def)
  show ?thesis
  proof (cases "- 1 \<le> vn \<and> vn \<le> 1")
    case True
    define cn where "cn = trunc (float64 (vn * float64 (real_of_int DWr / r)))"
    from assms(3) True have "\<not> (- 1 \<le> vp \<and> vp \<le> 1)" by blast
    with True assms(1) r0 have "level_set (vn, vp) s =
        (Raised IndexError, s\<lparr>regset := (regset s)\<lparr>cfg_neg := word_of_int cn\<rparr>\<rparr>)"
      unfolding level_set_def int32_of_float_def Let_def cn_def
      by (cases "- 1 \<le> vp") simp_all
    moreover have "(- 1 \<le> vn \<and> vn \<le> 1) = True" using True by blast
    moreover have "sint (word_of_int cn :: 32 word) = cn"
    proof (rule sint_int32_small)
      have "\<bar>cn\<bar> \<le> \<lceil>real_of_int DWr / r\<rceil>"
        unfolding cn_def using scale_facts [OF assms(2)] True
        by (intro count_bounds(1) [where s = "real_of_int DWr / r" and e = "1 / 2 ^ 43"]) simp_all
      with scale_facts(3) [OF assms(2)] show "\<bar>cn\<bar> \<le> 32767" by linarith
    qed
    ultimately have "(\<exists>e. fst (level_set (vn, vp) s) = Raised e)
       \<and> cfg_pos (regset (snd (level_set (vn, vp) s))) = cfg_pos (regset s)
       \<and> (\<not> (- 1 \<le> vn \<and> vn \<le> 1) \<longrightarrow> snd (level_set (vn, vp) s) = s)
       \<and> (- 1 \<le> vn \<and> vn \<le> 1 \<longrightarrow>
            snd (level_set (vn, vp) s) =
              s\<lparr>regset := (regset s)\<lparr>cfg_neg := word_of_int cn\<rparr>\<rparr>
            \<and> sint (cfg_neg (regset (snd (level_set (vn, vp) s)))) = cn)"
      by (simp only: fst_conv snd_conv simp_thms) simp
    then show ?thesis unfolding cn_def .
  next
    case False
    with assms(1) r0 have "level_set (vn, vp) s = (Raised IndexError, s)"
      unfolding level_set_def Let_def by (cases "- 1 \<le> vn") simp_all
    moreover have "(- 1 \<le> vn \<and> vn \<le> 1) = False" using False by blast
    ultimately show ?thesis by (simp only: fst_conv snd_conv simp_thms) simp
  qed
qed


theorem level_set_rejects_witness:
  "snd (level_set (2, 1 / 2) (osc_zero 1)) = osc_zero 1
   \<and> snd (level_set (1 / 2, 2) (osc_zero 1)) =
       (osc_zero 1)\<lparr>regset := (regset (osc_zero 1))\<lparr>cfg_neg := 16383\<rparr>\<rparr>
   \<and> snd (level_set (35185445863425 / 2 ^ 60, 2) (osc_zero 1)) =
       (osc_zero 1)\<lparr>regset := (regset (osc_zero 1))\<lparr>cfg_neg := 1\<rparr>\<rparr>
   \<and> cfg_pos (regset (snd (level_set (1 / 2, 2) (osc_zero 1)))) = cfg_pos (regset (osc_zero 1))"
proof -
  have h: "input_range (osc_zero 1) = Some 1" by (simp add: osc_zero_def)
  have r: "(1::real) \<in> set ranges" by (simp add: ranges_def)
  have b1: "\<not> (- 1 \<le> (2::real) \<and> (2::real) \<le> 1) \<or> \<not> (- 1 \<le> (1 / 2 :: real) \<and> (1 / 2 :: real) \<le> 1)"
    by simp
  have b2: "\<not> (- 1 \<le> (1 / 2 :: real) \<and> (1 / 2 :: real) \<le> 1) \<or> \<not> (- 1 \<le> (2::real) \<and> (2::real) \<le> 1)"
    by simp
  have b3: "\<not> (- 1 \<le> (35185445863425 / 2 ^ 60 :: real) \<and> (35185445863425 / 2 ^ 60 :: real) \<le> 1)
      \<or> \<not> (- 1 \<le> (2::real) \<and> (2::real) \<le> 1)"
    by simp
  have c2: "trunc (float64 (1 / 2 * float64 (real_of_int DWr / 1))) = 16383"
    by (simp add: DWr_eq float64_32767 float64_examples trunc_def)
  have c3: "trunc (float64 (35185445863425 / 2 ^ 60 * float64 (real_of_int DWr / 1))) = 1"
    by (simp only: DWr_eq of_int_numeral div_by_1 float64_32767 float64_rounds_up_to_one)
       (simp add: trunc_def)
  note t1 = level_set_rejects [OF h r b1]
  note t2 = level_set_rejects [OF h r b2, unfolded c2]
  note t3 = level_set_rejects [OF h r b3, unfolded c3]
  have "snd (level_set (2, 1 / 2) (osc_zero 1)) = osc_zero 1"
    using t1 [THEN conjunct2, THEN conjunct2, THEN conjunct1] by simp
  moreover have "snd (level_set (1 / 2, 2) (osc_zero 1)) =
       (osc_zero 1)\<lparr>regset := (regset (osc_zero 1))\<lparr>cfg_neg := 16383\<rparr>\<rparr>"
    using t2 [THEN conjunct2, THEN conjunct2, THEN conjunct2] by simp
  moreover have "snd (level_set (35185445863425 / 2 ^ 60, 2) (osc_zero 1)) =
       (osc_zero 1)\<lparr>regset := (regset (osc_zero 1))\<lparr>cfg_neg := 1\<rparr>\<rparr>"
    using t3 [THEN conjunct2, THEN conjunct2, THEN conjunct2] by simp
  moreover have "cfg_pos (regset (snd (level_set (1 / 2, 2) (osc_zero 1)))) = cfg_pos (regset (osc_zero 1))"
    using t2 [THEN conjunct2, THEN conjunct1] .
  ultimately show ?thesis by blast
qed


text \<open>
  Claim C3 as stated fails: with the negative level \<open>1/2\<close> in range and the positive
  level 2 out of range, the setter raises and \<open>cfg_neg\<close> has gone from 0 to 16383.
\<close>

theorem level_set_atomic_counterexample:
  "- 1 \<le> (1 / 2 :: real) \<and> (1 / 2 :: real) \<le> 1 \<and> \<not> ((2 :: real) \<le> 1)
   \<and> fst (level_set (1 / 2, 2) (osc_zero 1)) = Raised IndexError
   \<and> cfg_neg (regset (osc_zero 1)) = 0
   \<and> cfg_neg (regset (snd (level_set (1 / 2, 2) (osc_zero 1)))) = 16383"
proof -
  have "level_set (1 / 2, 2) (osc_zero 1) =
     (Raised IndexError, (osc_zero 1)\<lparr>regset := (regset (osc_zero 1))\<lparr>cfg_neg := 16383\<rparr>\<rparr>)"
    by (simp add: level_set_def osc_zero_def int32_of_float_def DWr_eq float64_32767
        float64_examples trunc_def Let_def)
  moreover have "cfg_neg (regset (osc_zero 1)) = 0"
    by (simp add: osc_zero_def regset_zero_def)
  ultimately show ?thesis by simp
qed

text \<open>
  Claim C4, as the code has it.  For levels in \<open>[-1, 1]\<close> and an input range of 1.0 or
  20.0 the setter stores the float product \<open>level * (DWr / range)\<close> with its fraction
  dropped (towards zero, not to the nearest integer); that count differs from the exact
  \<open>level * DWr / range\<close> by less than \<open>1 + 2 ^ - 43\<close>.  The getter returns the float
  product \<open>count * (range / DWr)\<close>, and the level read back differs from the level
  written by less than one step \<open>range / DWr\<close> plus \<open>2 ^ - 51\<close> of float rounding.
\<close>

theorem level_set_stores_truncated_count:
  assumes "input_range s = Some r" and "r \<in> set ranges"
    and "- 1 \<le> vn" and "vn \<le> 1" and "- 1 \<le> vp" and "vp \<le> 1"
  shows "level_set (vn, vp) s =
           (Done, s\<lparr>regset := (regset s)
              \<lparr>cfg_neg := word_of_int (trunc (float64 (vn * float64 (real_of_int DWr / r)))),
               cfg_pos := word_of_int (trunc (float64 (vp * float64 (real_of_int DWr / r))))\<rparr>\<rparr>)
       \<and> sint (cfg_neg (regset (snd (level_set (vn, vp) s))))
           = trunc (float64 (vn * float64 (real_of_int DWr / r)))
       \<and> sint (cfg_pos (regset (snd (level_set (vn, vp) s))))
           = trunc (float64 (vp * float64 (real_of_int DWr / r)))
       \<and> \<bar>real_of_int (trunc (float64 (vn * float64 (real_of_int DWr / r))))
            - vn * (real_of_int DWr / r)\<bar> < 1 + 1 / 2 ^ 43
       \<and> \<bar>real_of_int (trunc (float64 (vp * float64 (real_of_int DWr / r))))
            - vp * (real_of_int DWr / r)\<bar> < 1 + 1 / 2 ^ 43
       \<and> level (snd (level_set (vn, vp) s)) =
           Inr [float64 (real_of_int (trunc (float64 (vn * float64 (real_of_int DWr / r))))
                          * float64 (r / real_of_int DWr)),
                float64 (real_of_int (trunc (float64 (vp * float64 (real_of_int DWr / r))))
                          * float64 (r / real_of_int DWr))]
       \<and> (\<exists>ln lp. level (snd (level_set (vn, vp) s)) = Inr [ln, lp]
            \<and> \<bar>ln - vn\<bar> < r / real_of_int DWr + 1 / 2 ^ 51
            \<and> \<bar>lp - vp\<bar> < r / real_of_int DWr + 1 / 2 ^ 51)"
proof -
  define cn where "cn = trunc (float64 (vn * float64 (real_of_int DWr / r)))"
  define cp where "cp = trunc (float64 (vp * float64 (real_of_int DWr / r)))"
  define qf where "qf = float64 (r / real_of_int DWr)"
  define q where "q = r / real_of_int DWr"
  define sc where "sc = real_of_int DWr / r"
  have r0: "r \<noteq> 0" using assms(2) by (auto simp: ranges_def)
  note sf = scale_facts [OF assms(2)]
  have set: "level_set (vn, vp) s =
           (Done, s\<lparr>regset := (regset s)\<lparr>cfg_neg := word_of_int cn, cfg_pos := word_of_int cp\<rparr>\<rparr>)"
    using assms r0 unfolding cn_def cp_def
    by (simp add: level_set_def int32_of_float_def Let_def)
  have kn: "\<bar>cn\<bar> \<le> \<lceil>real_of_int DWr / r\<rceil>"
    unfolding cn_def using sf assms(3,4)
    by (intro count_bounds(1) [where s = "real_of_int DWr / r" and e = "1 / 2 ^ 43"]) simp_all
  have kp: "\<bar>cp\<bar> \<le> \<lceil>real_of_int DWr / r\<rceil>"
    unfolding cp_def using sf assms(5,6)
    by (intro count_bounds(1) [where s = "real_of_int DWr / r" and e = "1 / 2 ^ 43"]) simp_all
  have sn: "sint (word_of_int cn :: 32 word) = cn"
    using kn sf(3) by (intro sint_int32_small) linarith
  have sp: "sint (word_of_int cp :: 32 word) = cp"
    using kp sf(3) by (intro sint_int32_small) linarith
  have en: "\<bar>real_of_int cn - vn * sc\<bar> < 1 + 1 / 2 ^ 43"
    unfolding cn_def sc_def using sf assms(3,4)
    by (intro count_bounds(3) [where K = "\<lceil>real_of_int DWr / r\<rceil>"]) simp_all
  have ep: "\<bar>real_of_int cp - vp * sc\<bar> < 1 + 1 / 2 ^ 43"
    unfolding cp_def sc_def using sf assms(5,6)
    by (intro count_bounds(3) [where K = "\<lceil>real_of_int DWr / r\<rceil>"]) simp_all
  have get: "level (snd (level_set (vn, vp) s)) =
      Inr [float64 (real_of_int cn * qf), float64 (real_of_int cp * qf)]"
    using assms(1) unfolding qf_def
    by (simp add: set level_def Let_def sn sp del: of_int_sint)
  have vn: "\<bar>float64 (real_of_int cn * qf) - vn\<bar> < q + 1 / 2 ^ 51"
    unfolding cn_def qf_def q_def by (rule volts_error [OF assms(2,3,4)])
  have vp: "\<bar>float64 (real_of_int cp * qf) - vp\<bar> < q + 1 / 2 ^ 51"
    unfolding cp_def qf_def q_def by (rule volts_error [OF assms(2,5,6)])
  have "level_set (vn, vp) s =
           (Done, s\<lparr>regset := (regset s)\<lparr>cfg_neg := word_of_int cn, cfg_pos := word_of_int cp\<rparr>\<rparr>)
       \<and> sint (cfg_neg (regset (snd (level_set (vn, vp) s)))) = cn
       \<and> sint (cfg_pos (regset (snd (level_set (vn, vp) s)))) = cp
       \<and> \<bar>real_of_int cn - vn * sc\<bar> < 1 + 1 / 2 ^ 43
       \<and> \<bar>real_of_int cp - vp * sc\<bar> < 1 + 1 / 2 ^ 43
       \<and> level (snd (level_set (vn, vp) s)) =
           Inr [float64 (real_of_int cn * qf), float64 (real_of_int cp * qf)]
       \<and> (\<exists>ln lp. level (snd (level_set (vn, vp) s)) = Inr [ln, lp]
            \<and> \<bar>ln - vn\<bar> < q + 1 / 2 ^ 51 \<and> \<bar>lp - vp\<bar> < q + 1 / 2 ^ 51)"
    using get en ep vn vp by (simp add: set sn sp)
  then show ?thesis
    unfolding cn_def cp_def qf_def q_def sc_def .
qed


theorem level_set_stores_truncated_count_witness:
  "level_set (1 / 4, - 1 / 4) (osc_zero 1) =
     (Done, (osc_zero 1)\<lparr>regset := (regset (osc_zero 1))\<lparr>cfg_neg := 8191, cfg_pos := - 8191\<rparr>\<rparr>)
   \<and> level_set (35185445863425 / 2 ^ 60, 0) (osc_zero 1) =
     (Done, (osc_zero 1)\<lparr>regset := (regset (osc_zero 1))\<lparr>cfg_neg := 1, cfg_pos := 0\<rparr>\<rparr>)
   \<and> (\<exists>ln lp. level (snd (level_set (1 / 4, - 1 / 4) (osc_zero 1))) = Inr [ln, lp]
        \<and> \<bar>ln - 1 / 4\<bar> < 1 / 32767 + 1 / 2 ^ 51 \<and> \<bar>lp + 1 / 4\<bar> < 1 / 32767 + 1 / 2 ^ 51)"
proof -
  have h: "input_range (osc_zero 1) = Some 1" by (simp add: osc_zero_def)
  have r: "(1::real) \<in> set ranges" by (simp add: ranges_def)
  have b: "- 1 \<le> (1 / 4 :: real)" "(1 / 4 :: real) \<le> 1" "- 1 \<le> (- 1 / 4 :: real)" "(- 1 / 4 :: real) \<le> 1"
    by simp_all
  have b': "- 1 \<le> (35185445863425 / 2 ^ 60 :: real)" "(35185445863425 / 2 ^ 60 :: real) \<le> 1"
    "- 1 \<le> (0 :: real)" "(0 :: real) \<le> 1"
    by simp_all
  have c1: "trunc (float64 (1 / 4 * float64 (real_of_int DWr / 1))) = 8191"
    "trunc (float64 (- 1 / 4 * float64 (real_of_int DWr / 1))) = - 8191"
    by (simp_all add: DWr_eq float64_32767 float64_examples trunc_def)
  have c2: "trunc (float64 (35185445863425 / 2 ^ 60 * float64 (real_of_int DWr / 1))) = 1"
    by (simp only: DWr_eq of_int_numeral div_by_1 float64_32767 float64_rounds_up_to_one)
       (simp add: trunc_def)
  have z: "float64 0 = 0" by (simp add: float64_unfold round_half_even_def)
  have c3: "trunc (float64 (0 * float64 (real_of_int DWr / 1))) = 0"
    by (simp add: z trunc_def)
  note t = level_set_stores_truncated_count [OF h r b]
  note t' = level_set_stores_truncated_count [OF h r b']
  have "level_set (1 / 4, - 1 / 4) (osc_zero 1) =
     (Done, (osc_zero 1)\<lparr>regset := (regset (osc_zero 1))\<lparr>cfg_neg := 8191, cfg_pos := - 8191\<rparr>\<rparr>)"
    using t [THEN conjunct1, unfolded c1] by simp
  moreover have "level_set (35185445863425 / 2 ^ 60, 0) (osc_zero 1) =
     (Done, (osc_zero 1)\<lparr>regset := (regset (osc_zero 1))\<lparr>cfg_neg := 1, cfg_pos := 0\<rparr>\<rparr>)"
    using t' [THEN conjunct1, unfolded c2 c3] by simp
  moreover have "\<exists>ln lp. level (snd (level_set (1 / 4, - 1 / 4) (osc_zero 1))) = Inr [ln, lp]
        \<and> \<bar>ln - 1 / 4\<bar> < 1 / 32767 + 1 / 2 ^ 51 \<and> \<bar>lp + 1 / 4\<bar> < 1 / 32767 + 1 / 2 ^ 51"
    using t [THEN conjunct2, THEN conjunct2, THEN conjunct2, THEN conjunct2, THEN conjunct2,
        THEN conjunct2]
    by (simp add: DWr_eq)
  ultimately show ?thesis by blast
qed


text \<open>
  Claim C4 as stated fails: for the level \<open>1/4\<close> at range 1.0 the scaled value is
  8191.75; the register receives 8191, and rounding to the nearest integer gives 8192.
\<close>

theorem level_set_rounds_counterexample:
  "sint (cfg_neg (regset (snd (level_set (1 / 4, 1 / 4) (osc_zero 1))))) = 8191
   \<and> round ((1 / 4 :: real) * real_of_int DWr / 1) = 8192"
proof -
  have "level_set (1 / 4, 1 / 4) (osc_zero 1) =
     (Done, (osc_zero 1)\<lparr>regset := (regset (osc_zero 1))\<lparr>cfg_neg := 8191, cfg_pos := 8191\<rparr>\<rparr>)"
    by (simp add: level_set_def osc_zero_def int32_of_float_def DWr_eq float64_32767
        float64_examples trunc_def Let_def)
  moreover have "round ((1 / 4 :: real) * real_of_int DWr / 1) = 8192"
    by (simp add: DWr_eq round_def)
  ultimately show ?thesis by simp
qed

subsection \<open>Sample extraction\<close>

lemma roll_length: "length (roll a shift) = length a"
  by (simp add: roll_def Let_def)

lemma rotate_nth:
  assumes "k \<le> length a" and "i < length a"
  shows "(drop k a @ take k a) ! i = a ! ((i + k) mod length a)"
proof (cases "i < length a - k")
  case True
  then have "(i + k) mod length a = i + k" by simp
  with True assms show ?thesis by (simp add: nth_append add.commute)
next
  case False
  then have ge: "length a \<le> i + k" by simp
  have "i + k - length a < length a" using assms by simp
  then have "(i + k) mod length a = i + k - length a"
    using ge by (metis le_mod_geq mod_less)
  moreover have "i - (length a - k) = i + k - length a" using assms False by simp
  ultimately show ?thesis using False assms by (simp add: nth_append)
qed

lemma roll_nth:
  assumes "i < length a"
  shows "roll a shift ! i = a ! nat ((int i - shift) mod int (length a))"
proof -
  define n where "n = length a"
  have n0: "0 < n" using assms unfolding n_def by (cases a) simp_all
  define offset where "offset = nat (shift mod int n)"
  have off: "int offset = shift mod int n" "offset < n"
    using n0 by (simp_all add: offset_def nat_less_iff)
  show ?thesis
  proof (cases "offset = 0")
    case True
    then have "shift mod int n = 0" using off by simp
    then have "(int i - shift) mod int n = int i mod int n"
      by (metis diff_zero mod_diff_right_eq)
    also have "\<dots> = int i" using assms by (simp add: n_def)
    finally have "nat ((int i - shift) mod int n) = i" by simp
    moreover have "roll a shift = a"
      using True n0 by (simp add: roll_def Let_def offset_def n_def)
    ultimately show ?thesis by (simp add: n_def)
  next
    case False
    have r: "roll a shift = drop (n - offset) a @ take (n - offset) a"
      using False n0 by (simp add: roll_def Let_def offset_def n_def)
    have "roll a shift ! i = a ! ((i + (n - offset)) mod n)"
      unfolding r using rotate_nth [of "n - offset" a i] assms by (simp add: n_def)
    moreover have "int ((i + (n - offset)) mod n) = (int i - shift) mod int n"
    proof -
      have "int (i + (n - offset)) = int i - int offset + int n"
        using off(2) by simp
      then have "int ((i + (n - offset)) mod n) = (int i - int offset + int n) mod int n"
        by (simp only: zmod_int)
      also have "\<dots> = (int i - int offset) mod int n"
        by simp
      also have "\<dots> = (int i - shift) mod int n"
        unfolding off(1) by (simp add: mod_diff_right_eq)
      finally show ?thesis .
    qed
    ultimately show ?thesis
      by (metis n_def nat_int)
  qed
qed

lemma slice_from_tail:
  assumes "0 < siz" and "siz \<le> int (length a)"
  shows "slice_from a (- siz) = drop (length a - nat siz) a"
proof -
  have "nat (int (length a) - siz) = length a - nat siz" using assms by linarith
  then show ?thesis using assms by (simp add: slice_from_def Let_def max_def)
qed

lemma slice_from_all:
  assumes "int (length a) < siz"
  shows "slice_from a (- siz) = a"
  using assms by (simp add: slice_from_def Let_def max_def)

lemma roll_neg:
  assumes "0 \<le> ptr" and "ptr < int (length a)"
  shows "roll a (- ptr) = drop (nat ptr) a @ take (nat ptr) a"
proof (cases "ptr = 0")
  case True
  then show ?thesis by (simp add: roll_def Let_def)
next
  case False
  define n where "n = length a"
  have n0: "n \<noteq> 0" using assms by (auto simp: n_def)
  have "(- ptr) mod int n = int n - ptr"
    using assms False by (simp add: n_def zmod_zminus1_eq_if)
  then have off: "nat ((- ptr) mod int n) = n - nat ptr" using assms by (simp add: n_def nat_diff_distrib)
  have "n - nat ptr \<noteq> 0" using assms by (simp add: n_def)
  moreover have "n - (n - nat ptr) = nat ptr" using assms by (simp add: n_def)
  ultimately show ?thesis
    using n0 off by (simp add: roll_def Let_def n_def)
qed

lemma upt4: "[0..<4] = [0, 1, 2, 3]"
  by (simp add: upt_rec)


text \<open>
  Claim C1.  For a size from 1 to \<open>N\<close> and a pointer from 0 to \<open>N - 1\<close>, on a table of \<open>N\<close>
  slots, \<open>data\<close> returns exactly \<open>size\<close> values, oldest first: the value at position \<open>i\<close>
  is the slot \<open>(pointer - size + i) mod N\<close>, read as a signed integer and scaled by
  \<open>input_range / DWr\<close>.  With size 4, pointer 8, range 1.0 and the slots 4 to 7 holding
  100, -200, 300, -400, the result is these four values times \<open>1 / 32767\<close>, in that order.
\<close>

theorem data_window:
  assumes "length (table s) = N" and "input_range s = Some r"
    and "0 < siz" and "siz \<le> int N" and "0 \<le> ptr" and "ptr < int N"
  shows "data s siz (Some ptr) =
           Inr (map (\<lambda>i. real_of_int (sint (table s ! nat ((ptr - siz + int i) mod int N)))
                             * (r / real_of_int DWr)) [0..<nat siz])
       \<and> (\<exists>xs. data s siz (Some ptr) = Inr xs \<and> length xs = nat siz)
       \<and> (siz = 4 \<and> ptr = 8 \<and> r = 1 \<and> table s ! 4 = 100 \<and> table s ! 5 = - 200
            \<and> table s ! 6 = 300 \<and> table s ! 7 = - 400 \<longrightarrow>
          data s siz (Some ptr) =
            Inr [100 * (1 / 32767), - 200 * (1 / 32767), 300 * (1 / 32767), - 400 * (1 / 32767)])"
proof -
  define tbl where "tbl = roll (table s) (- ptr)"
  define f where "f = (\<lambda>x :: 16 word. real_of_int (sint x) * (r / real_of_int DWr))"
  define k where "k = N - nat siz"
  have len: "length tbl = N" by (simp add: tbl_def roll_length assms(1))
  have sl: "slice_from tbl (- siz) = drop k tbl"
    unfolding k_def using slice_from_tail [of siz tbl] assms(3,4) len by simp
  have d: "data s siz (Some ptr) = Inr (map f (drop k tbl))"
    using assms(2) sl unfolding tbl_def f_def by (simp add: data_def Let_def)
  have klen: "length (drop k tbl) = nat siz"
    using assms(3,4) len by (simp add: k_def)
  have nth: "drop k tbl ! i = table s ! nat ((ptr - siz + int i) mod int N)"
    if "i < nat siz" for i
  proof -
    have ki: "k + i < N" using that assms(3,4) by (simp add: k_def)
    have "drop k tbl ! i = tbl ! (k + i)" using ki len by simp
    also have "\<dots> = table s ! nat ((int (k + i) - (- ptr)) mod int N)"
      unfolding tbl_def using roll_nth [of "k + i" "table s" "- ptr"] ki assms(1) by simp
    also have "int (k + i) - (- ptr) = (ptr - siz + int i) + int N"
      using assms(3,4) by (simp add: k_def)
    also have "((ptr - siz + int i) + int N) mod int N = (ptr - siz + int i) mod int N"
      by simp
    finally show ?thesis .
  qed
  have eq: "map f (drop k tbl) =
      map (\<lambda>i. f (table s ! nat ((ptr - siz + int i) mod int N))) [0..<nat siz]"
  proof (rule nth_equalityI)
    show "length (map f (drop k tbl)) =
        length (map (\<lambda>i. f (table s ! nat ((ptr - siz + int i) mod int N))) [0..<nat siz])"
      by (simp only: length_map klen length_upt)
  next
    fix i
    assume "i < length (map f (drop k tbl))"
    then have i: "i < nat siz" by (simp only: length_map klen)
    then have "map f (drop k tbl) ! i = f (drop k tbl ! i)"
      by (intro nth_map) (simp only: klen)
    also have "\<dots> = f (table s ! nat ((ptr - siz + int i) mod int N))"
      by (simp only: nth [OF i])
    finally show "map f (drop k tbl) ! i =
        map (\<lambda>i. f (table s ! nat ((ptr - siz + int i) mod int N))) [0..<nat siz] ! i"
      using i by simp
  qed
  have a: "data s siz (Some ptr) =
           Inr (map (\<lambda>i. real_of_int (sint (table s ! nat ((ptr - siz + int i) mod int N)))
                             * (r / real_of_int DWr)) [0..<nat siz])"
    by (simp only: d eq) (simp only: f_def)
  have b: "\<exists>xs. data s siz (Some ptr) = Inr xs \<and> length xs = nat siz"
    unfolding a by simp
  have c: "data s siz (Some ptr) =
            Inr [100 * (1 / 32767), - 200 * (1 / 32767), 300 * (1 / 32767), - 400 * (1 / 32767)]"
    if "siz = 4" "ptr = 8" "r = 1" "table s ! 4 = 100" "table s ! 5 = - 200"
       "table s ! 6 = 300" "table s ! 7 = - 400"
    unfolding a using that by (simp add: upt4 N_def DWr_eq del: of_int_sint)
  show ?thesis using a b c by blast
qed

theorem data_window_witness:
  "data osc_example 4 (Some 8) =
     Inr [100 * (1 / 32767), - 200 * (1 / 32767), 300 * (1 / 32767), - 400 * (1 / 32767)]"
proof -
  have l: "length (table osc_example) = N"
    by (simp add: osc_example_def table_example_def)
  have r: "input_range osc_example = Some 1" by (simp add: osc_example_def)
  have b: "(0::int) < 4" "(4::int) \<le> int N" "(0::int) \<le> 8" "(8::int) < int N"
    by (simp_all add: N_def)
  have v: "table osc_example ! 4 = 100" "table osc_example ! 5 = - 200"
    "table osc_example ! 6 = 300" "table osc_example ! 7 = - 400"
    by (simp_all add: osc_example_def table_example_def N_def)
  from data_window [OF l r b, THEN conjunct2, THEN conjunct2] v
  show ?thesis by simp
qed


text \<open>
  Claim C10.  For a size greater than \<open>N\<close> and a pointer from 0 to \<open>N - 1\<close>, \<open>data\<close> raises
  nothing and returns \<open>N\<close> values, not \<open>size\<close>: the whole table rotated to start at the
  slot \<open>pointer\<close> (so that it ends at the slot before it), each value scaled by
  \<open>input_range / DWr\<close>.  The length is \<open>min size N\<close>.
\<close>

theorem data_oversize:
  assumes "length (table s) = N" and "input_range s = Some r"
    and "int N < siz" and "0 \<le> ptr" and "ptr < int N"
  shows "data s siz (Some ptr) =
           Inr (map (\<lambda>x. real_of_int (sint x) * (r / real_of_int DWr))
                    (drop (nat ptr) (table s) @ take (nat ptr) (table s)))
       \<and> (\<exists>xs. data s siz (Some ptr) = Inr xs \<and> length xs = N
                \<and> length xs = min (nat siz) N \<and> length xs < nat siz
                \<and> (\<forall>i < N. xs ! i = real_of_int (sint (table s ! ((nat ptr + i) mod N)))
                                         * (r / real_of_int DWr)))"
proof -
  define tbl where "tbl = drop (nat ptr) (table s) @ take (nat ptr) (table s)"
  define f where "f = (\<lambda>x :: 16 word. real_of_int (sint x) * (r / real_of_int DWr))"
  have ro: "roll (table s) (- ptr) = tbl"
    unfolding tbl_def using roll_neg [of ptr "table s"] assms(1,4,5) by simp
  have len: "length tbl = N" using assms(1,4,5) by (simp add: tbl_def)
  have sl: "slice_from tbl (- siz) = tbl"
    using slice_from_all [of tbl siz] assms(3) len by simp
  have d: "data s siz (Some ptr) = Inr (map f tbl)"
    using assms(2) sl ro unfolding f_def by (simp add: data_def Let_def)
  have nth: "map f tbl ! i = f (table s ! ((nat ptr + i) mod N))" if "i < N" for i
  proof -
    have "tbl ! i = table s ! ((i + nat ptr) mod length (table s))"
      unfolding tbl_def using that assms(1,4,5) by (intro rotate_nth) simp_all
    then show ?thesis using that len by (simp add: assms(1) add.commute)
  qed
  have m: "min (nat siz) N = N" "N < nat siz" using assms(3) by simp_all
  have "\<exists>xs. data s siz (Some ptr) = Inr xs \<and> length xs = N
                \<and> length xs = min (nat siz) N \<and> length xs < nat siz
                \<and> (\<forall>i < N. xs ! i = f (table s ! ((nat ptr + i) mod N)))"
    unfolding d using nth len m by simp
  then show ?thesis
    unfolding d unfolding f_def tbl_def by simp
qed

theorem data_oversize_witness:
  "\<exists>xs. data osc_example 20000 (Some 8) = Inr xs \<and> length xs = 16384
        \<and> xs ! 16383 = - 400 * (1 / 32767)"
proof -
  have l: "length (table osc_example) = N"
    by (simp add: osc_example_def table_example_def)
  have r: "input_range osc_example = Some 1" by (simp add: osc_example_def)
  have b: "int N < 20000" "(0::int) \<le> 8" "(8::int) < int N"
    by (simp_all add: N_def)
  have v: "table osc_example ! 7 = - 400"
    by (simp add: osc_example_def table_example_def N_def)
  from data_oversize [OF l r b, THEN conjunct2]
  obtain xs where xs: "data osc_example 20000 (Some 8) = Inr xs" "length xs = N"
    "\<forall>i < N. xs ! i = real_of_int (sint (table osc_example ! ((nat 8 + i) mod N)))
                                         * (1 / real_of_int DWr)"
    by blast
  have "(16383::nat) < N" by (simp add: N_def)
  with xs(3) have "xs ! 16383 = real_of_int (sint (table osc_example ! ((nat 8 + 16383) mod N)))
                                         * (1 / real_of_int DWr)" by blast
  also have "(nat 8 + 16383) mod N = 7" by (simp add: N_def)
  finally have "xs ! 16383 = - 400 * (1 / 32767)"
    by (simp add: v DWr_eq del: of_int_sint)
  with xs(1,2) show ?thesis by (simp add: N_def)
qed

end
